theory Spec2Isabelle
  imports Complex_Main
begin

section \<open>Errors (errors.go)\<close>

text \<open>
  A Go \<open>error\<close> value is one of the SDK's error structs, the error of a context
  (\<open>ctx.Err()\<close>), or an error made elsewhere (\<open>fmt.Errorf\<close>, the standard library).
  Every SDK error carries its message and an optional cause; \<open>Code\<close> and \<open>Type\<close> are
  fixed by the constructor and are read off by \<open>errorType\<close>.
\<close>

datatype error =
    NetworkError string int string "error option"
  | AuthenticationError string "error option"
  | ValidationError string string "error option"
  | RateLimitError string int "error option"
  | TimeoutError string string "error option"
  | CacheError string string "error option"
  | ConfigError string string "error option"
  | ContextCanceled
  | ContextDeadlineExceeded
  | OtherError string

definition NewNetworkError :: "string \<Rightarrow> int \<Rightarrow> string \<Rightarrow> error option \<Rightarrow> error" where
  "NewNetworkError message statusCode url cause = NetworkError message statusCode url cause"

definition NewAuthenticationError :: "string \<Rightarrow> error option \<Rightarrow> error" where
  "NewAuthenticationError message cause = AuthenticationError message cause"

definition NewValidationError :: "string \<Rightarrow> string \<Rightarrow> error option \<Rightarrow> error" where
  "NewValidationError message field cause = ValidationError message field cause"

definition NewRateLimitError :: "string \<Rightarrow> int \<Rightarrow> error option \<Rightarrow> error" where
  "NewRateLimitError message retryAfter cause = RateLimitError message retryAfter cause"

definition NewTimeoutError :: "string \<Rightarrow> string \<Rightarrow> error option \<Rightarrow> error" where
  "NewTimeoutError message duration cause = TimeoutError message duration cause"

fun errorType :: "error \<Rightarrow> string" where
  "errorType (NetworkError _ _ _ _) = ''NetworkError''"
| "errorType (AuthenticationError _ _) = ''AuthenticationError''"
| "errorType (ValidationError _ _ _) = ''ValidationError''"
| "errorType (RateLimitError _ _ _) = ''RateLimitError''"
| "errorType (TimeoutError _ _ _) = ''TimeoutError''"
| "errorType (CacheError _ _ _) = ''CacheError''"
| "errorType (ConfigError _ _ _) = ''ConfigError''"
| "errorType ContextCanceled = ''context.Canceled''"
| "errorType ContextDeadlineExceeded = ''context.DeadlineExceeded''"
| "errorType (OtherError _) = ''error''"

text \<open>\<open>IsRetryable\<close>: a type switch; the status codes are 429 and 408.\<close>

fun IsRetryable :: "error \<Rightarrow> bool" where
  "IsRetryable (NetworkError _ statusCode _ _) =
     (statusCode \<ge> 500 \<or> statusCode = 429 \<or> statusCode = 408)"
| "IsRetryable (TimeoutError _ _ _) = True"
| "IsRetryable (RateLimitError _ _ _) = True"
| "IsRetryable _ = False"

section \<open>The HTTP client: error classification and backoff\<close>

record APIError =
  Code :: string
  Message :: string
  Details :: string

text \<open>
  \<open>strconv.Atoi\<close> of the standard library: an optional sign, then one or more decimal
  digits, and a value in the range of a 64-bit \<open>int\<close>; anything else is an error.
\<close>

definition isDigit :: "char \<Rightarrow> bool" where
  "isDigit c = (48 \<le> (of_char c :: nat) \<and> (of_char c :: nat) \<le> 57)"

definition digitsValue :: "string \<Rightarrow> int" where
  "digitsValue ds = foldl (\<lambda>acc c. 10 * acc + (int (of_char c) - 48)) 0 ds"

definition Atoi :: "string \<Rightarrow> int option" where
  "Atoi s =
     (let neg = (s \<noteq> [] \<and> hd s = CHR ''-'');
          ds = (if s \<noteq> [] \<and> (hd s = CHR ''-'' \<or> hd s = CHR ''+'') then tl s else s)
      in if ds = [] \<or> \<not> list_all isDigit ds then None
         else let n = digitsValue ds
              in if neg then (if n > 2 ^ 63 then None else Some (- n))
                 else (if n \<ge> 2 ^ 63 then None else Some n))"

text \<open>The verb \<open>%d\<close> of \<open>fmt.Sprintf\<close>: the decimal digits, with a minus sign below zero.\<close>

fun showNat :: "nat \<Rightarrow> string" where
  "showNat n =
     (if n < 10 then [char_of (48 + n)] else showNat (n div 10) @ [char_of (48 + n mod 10)])"

definition showInt :: "int \<Rightarrow> string" where
  "showInt i = (if i < 0 then CHR ''-'' # showNat (nat (- i)) else showNat (nat i))"

text \<open>
  \<open>handleHTTPError\<close>. The body is given by what \<open>json.Unmarshal(body, &apiErr)\<close>
  makes of it: \<open>None\<close> when the call returns an error, the decoded object otherwise.
\<close>

definition handleHTTPError :: "int \<Rightarrow> APIError option \<Rightarrow> string \<Rightarrow> error" where
  "handleHTTPError statusCode body url =
     (case body of
        None \<Rightarrow> NewNetworkError (''HTTP '' @ showInt statusCode) statusCode url None
      | Some apiErr \<Rightarrow>
          if statusCode = 401 then NewAuthenticationError (Message apiErr) None
          else if statusCode = 400 then NewValidationError (Message apiErr) [] None
          else if statusCode = 429 then
            (let retryAfter =
                   (if Details apiErr \<noteq> [] then
                      (case Atoi (Details apiErr) of Some parsed \<Rightarrow> parsed | None \<Rightarrow> 0)
                    else 0)
             in NewRateLimitError (Message apiErr) retryAfter None)
          else if statusCode = 408 then NewTimeoutError (Message apiErr) [] None
          else NewNetworkError (Message apiErr) statusCode url None)"

text \<open>
  \<open>calculateBackoff\<close>. A \<open>time.Duration\<close> is a signed 64-bit count of nanoseconds;
  products and sums wrap. \<open>math.Pow(2, float64(attempt))\<close> is exact for the exponents
  0..62 and converts to that power of two; below 0 the power is a fraction and converts
  to 0; from 63 on the conversion overflows and yields the smallest \<open>int64\<close> (amd64).
  The draw \<open>rand.Float64()\<close> is the argument \<open>r\<close>, a number in [0, 1); the conversion
  \<open>time.Duration(x)\<close> of a floating-point \<open>x\<close> truncates toward zero.
\<close>

definition wrap64 :: "int \<Rightarrow> int" where
  "wrap64 x = (x + 2 ^ 63) mod 2 ^ 64 - 2 ^ 63"

definition Millisecond :: int where
  "Millisecond = 1000000"

definition Second :: int where
  "Second = 1000000000"

definition pow2Duration :: "int \<Rightarrow> int" where
  "pow2Duration attempt =
     (if attempt < 0 then 0 else if attempt \<le> 62 then 2 ^ nat attempt else - (2 ^ 63))"

definition truncToDuration :: "rat \<Rightarrow> int" where
  "truncToDuration x = (if 0 \<le> x then \<lfloor>x\<rfloor> else \<lceil>x\<rceil>)"

definition cappedBackoff :: "int \<Rightarrow> int" where
  "cappedBackoff attempt =
     (let base = wrap64 (100 * Millisecond);
          backoff = wrap64 (base * pow2Duration attempt);
          maxBackoff = wrap64 (30 * Second)
      in if backoff > maxBackoff then maxBackoff else backoff)"

definition calculateBackoff :: "int \<Rightarrow> rat \<Rightarrow> int" where
  "calculateBackoff attempt r =
     (let backoff = cappedBackoff attempt;
          jitter = wrap64 (truncToDuration (r * (1 / 2) - 1 / 4) * backoff)
      in wrap64 (backoff + jitter))"

section \<open>Cache keys (evaluator.go)\<close>

text \<open>
  \<open>generateCacheKey\<close> formats \<open>"flag:%s:user:%s:env:%s"\<close> with the flag key, the user
  id of the user context and the environment of the configuration.
\<close>

definition generateCacheKey :: "string \<Rightarrow> string \<Rightarrow> string \<Rightarrow> string" where
  "generateCacheKey flagKey userID environment =
     ''flag:'' @ flagKey @ '':user:'' @ userID @ '':env:'' @ environment"

definition generateGateCacheKey :: "string \<Rightarrow> string \<Rightarrow> string \<Rightarrow> string" where
  "generateGateCacheKey gateKey userID environment =
     ''gate:'' @ gateKey @ '':user:'' @ userID @ '':env:'' @ environment"

section \<open>Values and results (the client's types)\<close>

text \<open>
  A value of type \<open>interface{}\<close>, by its dynamic type: \<open>nil\<close>, \<open>bool\<close>, \<open>string\<close>,
  \<open>int\<close>, \<open>int64\<close>, \<open>float64\<close> (a rational stands for the number), or anything else
  (a decoded JSON object or array, by its text). A \<open>time.Time\<close> is an integer count of
  nanoseconds from the zero time, so that \<open>IsZero\<close> is equality with 0, and a
  \<open>time.Duration\<close> is an integer count of nanoseconds.
\<close>

datatype anyval =
    VNil
  | VBool bool
  | VString string
  | VInt int
  | VInt64 int
  | VFloat64 rat
  | VOther string

record FlagResult =
  Key :: string
  Value :: anyval
  Reason :: string
  RuleID :: string
  Variation :: string
  Error :: "error option"
  EvaluatedAt :: int
  CacheHit :: bool

definition zeroFlagResult :: FlagResult where
  "zeroFlagResult =
     \<lparr>Key = [], Value = VNil, Reason = [], RuleID = [], Variation = [], Error = None,
      EvaluatedAt = 0, CacheHit = False\<rparr>"

record UserContext =
  UserID :: string
  SessionID :: string
  Email :: string
  Country :: string
  Language :: string
  Platform :: string
  Version :: string
  IPAddress :: string
  UserAgent :: string
  Attributes :: "(string \<times> anyval) list"
  Timestamp :: int

section \<open>The in-memory cache (cache.go)\<close>

text \<open>
  \<open>items\<close> is the map from keys to items. \<open>lruList\<close> is the recency list, front first;
  each of its elements points to an item, which the model names by the item's key (the
  field \<open>element\<close> of an item is its position in the list).
\<close>

record cacheItem =
  item_key :: string
  item_value :: FlagResult
  expiration :: int

record MemoryCache =
  maxSize :: int
  items :: "string \<rightharpoonup> cacheItem"
  lruList :: "string list"
  defaultTTL :: int

definition NewMemoryCache :: "int \<Rightarrow> int \<Rightarrow> MemoryCache" where
  "NewMemoryCache maxSize' defaultTTL' =
     \<lparr>maxSize = maxSize', items = Map.empty, lruList = [], defaultTTL = defaultTTL'\<rparr>"

definition MoveToFront :: "string \<Rightarrow> string list \<Rightarrow> string list" where
  "MoveToFront k l = (if k \<in> set l then k # remove1 k l else l)"

text \<open>
  \<open>Get\<close> at the clock reading \<open>now\<close>. On an expired item \<open>Get\<close> starts a goroutine that
  calls \<open>Delete\<close> and returns at once without touching the cache: the deletion is a
  later \<open>Delete\<close> operation of its own.
\<close>

definition MemoryCache_Get ::
  "MemoryCache \<Rightarrow> string \<Rightarrow> int \<Rightarrow> (FlagResult \<times> bool) \<times> MemoryCache" where
  "MemoryCache_Get c key now =
     (case items c key of
        None \<Rightarrow> ((zeroFlagResult, False), c)
      | Some item \<Rightarrow>
          if now > expiration item then ((zeroFlagResult, False), c)
          else ((item_value item, True), c\<lparr>lruList := MoveToFront key (lruList c)\<rparr>))"

definition MemoryCache_Size :: "MemoryCache \<Rightarrow> int" where
  "MemoryCache_Size c = int (card (dom (items c)))"

text \<open>
  \<open>evictIfNeeded\<close>: a loop that may not end. While the map has more than \<open>maxSize\<close>
  entries it removes the item at the back of the list; when the list is empty nothing
  changes and the test is made again.
\<close>

partial_function (option) evictIfNeeded :: "MemoryCache \<Rightarrow> MemoryCache option" where
  "evictIfNeeded c =
     (if int (card (dom (items c))) > maxSize c then
        (case lruList c of
           [] \<Rightarrow> evictIfNeeded c
         | _ # _ \<Rightarrow>
             evictIfNeeded
               (c\<lparr>lruList := butlast (lruList c),
                  items := (items c)(last (lruList c) := None)\<rparr>))
      else Some c)"

definition MemoryCache_Set ::
  "MemoryCache \<Rightarrow> string \<Rightarrow> FlagResult \<Rightarrow> int \<Rightarrow> int \<Rightarrow> MemoryCache option" where
  "MemoryCache_Set c key result ttl now =
     (let ttl' = (if ttl = 0 then defaultTTL c else ttl);
          expiration' = now + ttl'
      in case items c key of
           Some existingItem \<Rightarrow>
             Some (c\<lparr>items := (items c)(key \<mapsto>
                        existingItem\<lparr>item_value := result, expiration := expiration'\<rparr>),
                      lruList := MoveToFront key (lruList c)\<rparr>)
         | None \<Rightarrow>
             evictIfNeeded
               (c\<lparr>lruList := key # lruList c,
                  items := (items c)(key \<mapsto>
                    \<lparr>item_key = key, item_value = result, expiration = expiration'\<rparr>)\<rparr>))"

definition MemoryCache_Delete :: "MemoryCache \<Rightarrow> string \<Rightarrow> MemoryCache" where
  "MemoryCache_Delete c key =
     (case items c key of
        Some item \<Rightarrow> c\<lparr>lruList := remove1 key (lruList c), items := (items c)(key := None)\<rparr>
      | None \<Rightarrow> c)"

definition MemoryCache_Clear :: "MemoryCache \<Rightarrow> MemoryCache" where
  "MemoryCache_Clear c = c\<lparr>items := Map.empty, lruList := []\<rparr>"

text \<open>Sequences of operations on one cache; \<open>None\<close> when an operation does not return.\<close>

datatype cacheOp =
    OpSet string FlagResult int int
  | OpGet string int
  | OpDelete string
  | OpClear

fun applyOp :: "MemoryCache \<Rightarrow> cacheOp \<Rightarrow> MemoryCache option" where
  "applyOp c (OpSet key result ttl now) = MemoryCache_Set c key result ttl now"
| "applyOp c (OpGet key now) = Some (snd (MemoryCache_Get c key now))"
| "applyOp c (OpDelete key) = Some (MemoryCache_Delete c key)"
| "applyOp c OpClear = Some (MemoryCache_Clear c)"

fun runOps :: "MemoryCache \<Rightarrow> cacheOp list \<Rightarrow> MemoryCache option" where
  "runOps c [] = Some c"
| "runOps c (op # ops) =
     (case applyOp c op of None \<Rightarrow> None | Some c' \<Rightarrow> runOps c' ops)"

text \<open>
  The use that an operation makes of a key: a \<open>Set\<close> uses its key, a \<open>Get\<close> uses its key
  when it finds a live item. \<open>lastUse\<close> gives, after a sequence of operations numbered
  from \<open>t\<close>, the number of the last operation that used each key.
\<close>

fun uses :: "MemoryCache \<Rightarrow> cacheOp \<Rightarrow> string option" where
  "uses c (OpSet key result ttl now) = Some key"
| "uses c (OpGet key now) = (if snd (fst (MemoryCache_Get c key now)) then Some key else None)"
| "uses c (OpDelete key) = None"
| "uses c OpClear = None"

fun lastUse :: "MemoryCache \<Rightarrow> cacheOp list \<Rightarrow> nat \<Rightarrow> (string \<Rightarrow> nat) \<Rightarrow> (string \<Rightarrow> nat)" where
  "lastUse c [] t f = f"
| "lastUse c (op # ops) t f =
     (case applyOp c op of
        None \<Rightarrow> f
      | Some c' \<Rightarrow>
          lastUse c' ops (Suc t) (case uses c op of None \<Rightarrow> f | Some k \<Rightarrow> f(k := Suc t)))"

text \<open>
  The representation invariant of the cache: the recency list holds each key of the map
  exactly once.
\<close>

definition cacheInv :: "MemoryCache \<Rightarrow> bool" where
  "cacheInv c = (distinct (lruList c) \<and> set (lruList c) = dom (items c))"

text \<open>The cache cut back to its capacity from the back of the recency list.\<close>

definition truncated :: "MemoryCache \<Rightarrow> MemoryCache" where
  "truncated c =
     c\<lparr>lruList := take (nat (maxSize c)) (lruList c),
       items := items c |` set (take (nat (maxSize c)) (lruList c))\<rparr>"

text \<open>A well-formed cache within its capacity.\<close>

definition bounded :: "MemoryCache \<Rightarrow> bool" where
  "bounded c = (cacheInv c \<and> 0 \<le> maxSize c \<and> MemoryCache_Size c \<le> maxSize c)"

text \<open>
  The recency list is in the order of last use under \<open>f\<close>, most recent first, and no
  use is later than \<open>t\<close>.
\<close>

definition byLastUse :: "(string \<Rightarrow> nat) \<Rightarrow> nat \<Rightarrow> MemoryCache \<Rightarrow> bool" where
  "byLastUse f t c =
     (sorted_wrt (\<lambda>a b. f a > f b) (lruList c) \<and> list_all (\<lambda>k. f k \<le> t) (lruList c))"

section \<open>The persistent cache (cache.go)\<close>

text \<open>
  What \<open>json.Unmarshal\<close> gives back from \<open>json.Marshal\<close>. The field \<open>Error\<close> of a
  \<open>FlagResult\<close> has the tag \<open>json:"-"\<close> and is not written. A \<open>Value\<close> is decoded into
  an \<open>interface{}\<close>, where every JSON number becomes a \<open>float64\<close> (integers beyond
  \<open>2^53\<close> are rounded, which is not modelled; strings are taken to be valid UTF-8).
  Times are written with nanoseconds and come back unchanged.
\<close>

fun jsonValue :: "anyval \<Rightarrow> anyval" where
  "jsonValue (VInt i) = VFloat64 (of_int i)"
| "jsonValue (VInt64 i) = VFloat64 (of_int i)"
| "jsonValue v = v"

definition jsonFlagResult :: "FlagResult \<Rightarrow> FlagResult" where
  "jsonFlagResult r = r\<lparr>Value := jsonValue (Value r), Error := None\<rparr>"

record persistentCacheItem =
  pValue :: FlagResult
  pExpiration :: int

text \<open>
  A file, by what \<open>json.Unmarshal(data, &cacheData)\<close> makes of its bytes: the decoded
  \<open>Items\<close> of a \<open>persistentCacheData\<close>, or an error. A path without a readable file maps
  to \<open>None\<close>.
\<close>

datatype fileContent =
    Snapshot "string \<rightharpoonup> persistentCacheItem"
  | Unreadable

type_synonym fileSystem = "string \<rightharpoonup> fileContent"

record PersistentCache =
  memoryCache :: MemoryCache
  filePath :: string

text \<open>
  What happens while a snapshot is saved: \<open>json.Marshal\<close> fails, \<open>os.WriteFile\<close> of the
  temporary file fails (leaving that file in some state), \<open>os.Rename\<close> fails, or all
  three succeed.
\<close>

datatype saveOutcome =
    SaveMarshalFails
  | SaveWriteFails "fileContent option"
  | SaveRenameFails
  | Saved

definition snapshotOf :: "MemoryCache \<Rightarrow> (string \<rightharpoonup> persistentCacheItem)" where
  "snapshotOf mc =
     (\<lambda>key. map_option
        (\<lambda>item. \<lparr>pValue = jsonFlagResult (item_value item), pExpiration = expiration item\<rparr>)
        (items mc key))"

definition saveToFile :: "PersistentCache \<Rightarrow> saveOutcome \<Rightarrow> fileSystem \<Rightarrow> fileSystem" where
  "saveToFile c outcome fs =
     (let cacheData = Snapshot (snapshotOf (memoryCache c));
          tempFile = filePath c @ ''.tmp''
      in case outcome of
           SaveMarshalFails \<Rightarrow> fs
         | SaveWriteFails left \<Rightarrow> fs(tempFile := left)
         | SaveRenameFails \<Rightarrow> fs(tempFile \<mapsto> cacheData)
         | Saved \<Rightarrow> (fs(tempFile := None))(filePath c \<mapsto> cacheData))"




definition PersistentCache_Get ::
  "PersistentCache \<Rightarrow> string \<Rightarrow> int \<Rightarrow> (FlagResult \<times> bool) \<times> PersistentCache" where
  "PersistentCache_Get c key now =
     (case MemoryCache_Get (memoryCache c) key now of
        (r, mc) \<Rightarrow> (r, c\<lparr>memoryCache := mc\<rparr>))"

definition PersistentCache_Set ::
  "PersistentCache \<Rightarrow> string \<Rightarrow> FlagResult \<Rightarrow> int \<Rightarrow> int \<Rightarrow> saveOutcome \<Rightarrow> fileSystem \<Rightarrow>
   (PersistentCache \<times> fileSystem) option" where
  "PersistentCache_Set c key result ttl now outcome fs =
     (case MemoryCache_Set (memoryCache c) key result ttl now of
        None \<Rightarrow> None
      | Some mc \<Rightarrow> Some (c\<lparr>memoryCache := mc\<rparr>, saveToFile (c\<lparr>memoryCache := mc\<rparr>) outcome fs))"






section \<open>The cache manager (cache.go)\<close>

record CacheConfig =
  TTL :: int
  MaxSize :: int
  EnablePersistence :: bool
  PersistencePath :: string
  EvictionPolicy :: string

datatype Cache =
    MemCache MemoryCache
  | PersCache PersistentCache

record CacheManager =
  cache :: Cache
  cacheConfig :: CacheConfig


definition CacheManager_Get ::
  "CacheManager \<Rightarrow> string \<Rightarrow> int \<Rightarrow> (FlagResult \<times> bool) \<times> CacheManager" where
  "CacheManager_Get cm key now =
     (case cache cm of
        MemCache c \<Rightarrow>
          (case MemoryCache_Get c key now of (r, c') \<Rightarrow> (r, cm\<lparr>cache := MemCache c'\<rparr>))
      | PersCache p \<Rightarrow>
          (case PersistentCache_Get p key now of (r, p') \<Rightarrow> (r, cm\<lparr>cache := PersCache p'\<rparr>)))"

definition CacheManager_Set ::
  "CacheManager \<Rightarrow> string \<Rightarrow> FlagResult \<Rightarrow> int \<Rightarrow> int \<Rightarrow> saveOutcome \<Rightarrow> fileSystem \<Rightarrow>
   (CacheManager \<times> fileSystem) option" where
  "CacheManager_Set cm key result ttl now outcome fs =
     (let ttl' = (if ttl = 0 then TTL (cacheConfig cm) else ttl)
      in case cache cm of
           MemCache c \<Rightarrow>
             map_option (\<lambda>c'. (cm\<lparr>cache := MemCache c'\<rparr>, fs))
               (MemoryCache_Set c key result ttl' now)
         | PersCache p \<Rightarrow>
             map_option (\<lambda>(p', fs'). (cm\<lparr>cache := PersCache p'\<rparr>, fs'))
               (PersistentCache_Set p key result ttl' now outcome fs))"

section \<open>Metrics\<close>

text \<open>The counters of the metrics collector; latencies are not modelled.\<close>

record MetricsCollector =
  apiCalls :: int
  cacheHits :: int
  cacheMisses :: int
  errorCount :: int
  flagsEvaluated :: int
  gatesEvaluated :: int
  eventsTracked :: int

definition RecordAPICall :: "MetricsCollector \<Rightarrow> bool \<Rightarrow> MetricsCollector" where
  "RecordAPICall m success =
     (let m' = m\<lparr>apiCalls := apiCalls m + 1\<rparr>
      in if \<not> success then m'\<lparr>errorCount := errorCount m' + 1\<rparr> else m')"

definition RecordCacheHit :: "MetricsCollector \<Rightarrow> MetricsCollector" where
  "RecordCacheHit m = m\<lparr>cacheHits := cacheHits m + 1\<rparr>"

definition RecordCacheMiss :: "MetricsCollector \<Rightarrow> MetricsCollector" where
  "RecordCacheMiss m = m\<lparr>cacheMisses := cacheMisses m + 1\<rparr>"

definition RecordFlagEvaluation :: "MetricsCollector \<Rightarrow> MetricsCollector" where
  "RecordFlagEvaluation m = m\<lparr>flagsEvaluated := flagsEvaluated m + 1\<rparr>"

section \<open>The HTTP client: requests and retries\<close>

record APIResponse =
  Success :: bool
  Data :: anyval
  ErrorField :: "APIError option"

text \<open>
  The body of a response, by what \<open>json.Unmarshal\<close> makes of it at each of the three
  types \<open>doRequest\<close> and \<open>handleHTTPError\<close> decode it to (\<open>None\<close>: the call returns an
  error): an \<open>APIError\<close>, an \<open>APIResponse\<close>, and the result type of the request.
\<close>

record 'r responseBody =
  asAPIError :: "APIError option"
  asAPIResponse :: "APIResponse option"
  asResult :: "'r option"

text \<open>
  What happens to one request: marshalling the request body fails, building the request
  fails, the transport fails without a response, reading the body of the response with
  the given status fails, or a response with a status and a body arrives.
\<close>

datatype 'r exchange =
    MarshalFails error
  | NewRequestFails error
  | DoFails error
  | ReadFails int error
  | Responds int "'r responseBody"

record HTTPClient =
  baseURL :: string
  apiKey :: string
  retryAttempts :: int

definition doRequest :: "HTTPClient \<Rightarrow> string \<Rightarrow> bool \<Rightarrow> 'r exchange \<Rightarrow> error + 'r option" where
  "doRequest c path wantResult x =
     (let url = baseURL c @ path
      in case x of
           MarshalFails err \<Rightarrow>
             Inl (NewValidationError ''Failed to marshal request body'' [] (Some err))
         | NewRequestFails err \<Rightarrow>
             Inl (NewNetworkError ''Failed to create request'' 0 url (Some err))
         | DoFails err \<Rightarrow> Inl (NewNetworkError ''Request failed'' 0 url (Some err))
         | ReadFails statusCode err \<Rightarrow>
             Inl (NewNetworkError ''Failed to read response body'' statusCode url (Some err))
         | Responds statusCode respBody \<Rightarrow>
             if statusCode \<ge> 400 then Inl (handleHTTPError statusCode (asAPIError respBody) url)
             else if wantResult then
               (case (case asAPIResponse respBody of
                        None \<Rightarrow> None
                      | Some apiResp \<Rightarrow> ErrorField apiResp) of
                  Some apiErr \<Rightarrow> Inl (NewNetworkError (Message apiErr) statusCode url None)
                | None \<Rightarrow>
                    (case asResult respBody of
                       None \<Rightarrow>
                         Inl (NewNetworkError ''Failed to parse response'' statusCode url
                                (Some (OtherError ''json'')))
                     | Some r \<Rightarrow> Inr (Some r)))
             else Inr None)"

text \<open>
  \<open>makeRequest\<close>: the loop over \<open>attempt\<close>. Before every attempt but the first the
  goroutine waits for the backoff timer or for the context, whichever comes first:
  \<open>ctxDone attempt\<close> is the error of the context when the context wins, \<open>None\<close> when the
  timer does (the length of the wait, \<open>calculateBackoff attempt\<close>, has no other effect).
  \<open>net attempt\<close> is what happens to the request of that attempt. Every attempt is
  recorded in the metrics.
\<close>

function makeRequestFrom ::
  "HTTPClient \<Rightarrow> string \<Rightarrow> bool \<Rightarrow> (int \<Rightarrow> error option) \<Rightarrow> (int \<Rightarrow> 'r exchange) \<Rightarrow>
   int \<Rightarrow> error option \<Rightarrow> MetricsCollector \<Rightarrow> error option \<times> 'r option \<times> MetricsCollector" where
  "makeRequestFrom c path wantResult ctxDone net attempt lastErr m =
     (if attempt \<le> retryAttempts c then
        (case (if attempt > 0 then ctxDone attempt else None) of
           Some ctxErr \<Rightarrow> (Some ctxErr, None, m)
         | None \<Rightarrow>
             (case doRequest c path wantResult (net attempt) of
                Inr res \<Rightarrow> (None, res, RecordAPICall m True)
              | Inl err \<Rightarrow>
                  if \<not> IsRetryable err then (Some err, None, RecordAPICall m False)
                  else makeRequestFrom c path wantResult ctxDone net (attempt + 1) (Some err)
                         (RecordAPICall m False)))
      else (lastErr, None, m))"
  by pat_completeness auto
termination
  by (relation "measure (\<lambda>(c, path, wantResult, ctxDone, net, attempt, lastErr, m).
        nat (retryAttempts c + 1 - attempt))") auto

definition makeRequest ::
  "HTTPClient \<Rightarrow> string \<Rightarrow> bool \<Rightarrow> (int \<Rightarrow> error option) \<Rightarrow> (int \<Rightarrow> 'r exchange) \<Rightarrow>
   MetricsCollector \<Rightarrow> error option \<times> 'r option \<times> MetricsCollector" where
  "makeRequest c path wantResult ctxDone net m =
     makeRequestFrom c path wantResult ctxDone net 0 None m"

record EvaluateFlagResponse =
  Enabled :: bool
  FlagKey :: string
  RespUserID :: string
  RespTimestamp :: string

definition zeroEvaluateFlagResponse :: EvaluateFlagResponse where
  "zeroEvaluateFlagResponse =
     \<lparr>Enabled = False, FlagKey = [], RespUserID = [], RespTimestamp = []\<rparr>"



definition HTTPClient_EvaluateFlag ::
  "HTTPClient \<Rightarrow> (int \<Rightarrow> error option) \<Rightarrow> (int \<Rightarrow> EvaluateFlagResponse exchange) \<Rightarrow>
   MetricsCollector \<Rightarrow> (error + EvaluateFlagResponse) \<times> MetricsCollector" where
  "HTTPClient_EvaluateFlag c ctxDone net m =
     (case makeRequest c ''/api/v1/sdk/evaluate'' True ctxDone net m of
        (Some err, res, m') \<Rightarrow> (Inl err, m')
      | (None, res, m') \<Rightarrow>
          (Inr (case res of Some resp \<Rightarrow> resp | None \<Rightarrow> zeroEvaluateFlagResponse), m'))"


section \<open>The evaluator (evaluator.go)\<close>

record Config =
  APIKey :: string
  BaseURL :: string
  Environment :: string
  Timeout :: int
  RetryAttempts :: int

record Evaluator =
  httpClient :: HTTPClient
  cacheManager :: CacheManager
  metrics :: MetricsCollector
  config :: Config

text \<open>
  The surroundings of one call: the reading of the clock during the call (a call is
  taken to happen at one instant), the context of the caller as \<open>makeRequest\<close> sees it,
  and the outcome of saving the snapshot after the \<open>Set\<close> of a cache key (which matters
  to a persistent cache only).
\<close>

record world =
  clock :: int
  ctxDone :: "int \<Rightarrow> error option"
  saving :: "string \<Rightarrow> saveOutcome"

definition evaluateFlagFromAPI ::
  "Evaluator \<Rightarrow> world \<Rightarrow> (int \<Rightarrow> EvaluateFlagResponse exchange) \<Rightarrow> MetricsCollector \<Rightarrow>
   string \<Rightarrow> anyval \<Rightarrow> UserContext \<Rightarrow> FlagResult \<times> MetricsCollector" where
  "evaluateFlagFromAPI e w net m flagKey defaultValue userContext =
     (case HTTPClient_EvaluateFlag (httpClient e) (ctxDone w) net m of
        (Inl err, m') \<Rightarrow>
          (\<lparr>Key = flagKey, Value = defaultValue, Reason = ''error_fallback'', RuleID = [],
            Variation = [], Error = Some err, EvaluatedAt = clock w, CacheHit = False\<rparr>, m')
      | (Inr response, m') \<Rightarrow>
          (\<lparr>Key = flagKey, Value = VBool (Enabled response), Reason = ''api_evaluation'',
            RuleID = [], Variation = [], Error = None, EvaluatedAt = clock w,
            CacheHit = False\<rparr>, m'))"

definition EvaluateFlag ::
  "Evaluator \<Rightarrow> world \<Rightarrow> (int \<Rightarrow> EvaluateFlagResponse exchange) \<Rightarrow> fileSystem \<Rightarrow>
   string \<Rightarrow> anyval \<Rightarrow> UserContext \<Rightarrow> (FlagResult \<times> Evaluator \<times> fileSystem) option" where
  "EvaluateFlag e w net fs flagKey defaultValue userContext =
     (let m1 = RecordFlagEvaluation (metrics e);
          userContext' = (if Timestamp userContext = 0
                          then userContext\<lparr>Timestamp := clock w\<rparr> else userContext);
          cacheKey = generateCacheKey flagKey (UserID userContext') (Environment (config e))
      in case CacheManager_Get (cacheManager e) cacheKey (clock w) of
           ((cachedResult, found), cm1) \<Rightarrow>
             if found then
               Some (cachedResult\<lparr>CacheHit := True\<rparr>,
                     e\<lparr>cacheManager := cm1, metrics := RecordCacheHit m1\<rparr>, fs)
             else
               (case evaluateFlagFromAPI e w net (RecordCacheMiss m1) flagKey defaultValue
                       userContext' of
                  (result, m3) \<Rightarrow>
                    if Error result = None then
                      (case CacheManager_Set cm1 cacheKey result 0 (clock w)
                              (saving w cacheKey) fs of
                         None \<Rightarrow> None
                       | Some (cm2, fs') \<Rightarrow>
                           Some (result, e\<lparr>cacheManager := cm2, metrics := m3\<rparr>, fs'))
                    else Some (result, e\<lparr>cacheManager := cm1, metrics := m3\<rparr>, fs)))"





section \<open>The client (variably.go)\<close>

record VariablyClient =
  evaluator :: Evaluator
  closed :: bool

text \<open>
  A call on the client panics when the client is closed (\<open>Inl\<close> the message of the
  panic), and otherwise returns what the evaluator returns.
\<close>

definition VariablyClient_EvaluateFlag ::
  "VariablyClient \<Rightarrow> world \<Rightarrow> (int \<Rightarrow> EvaluateFlagResponse exchange) \<Rightarrow> fileSystem \<Rightarrow>
   string \<Rightarrow> anyval \<Rightarrow> UserContext \<Rightarrow>
   (string + FlagResult \<times> VariablyClient \<times> fileSystem) option" where
  "VariablyClient_EvaluateFlag c w net fs flagKey defaultValue userContext =
     (if closed c then Some (Inl ''Variably client has been closed'')
      else
        (case EvaluateFlag (evaluator c) w net fs flagKey defaultValue userContext of
           None \<Rightarrow> None
         | Some (result, e', fs') \<Rightarrow> Some (Inr (result, c\<lparr>evaluator := e'\<rparr>, fs'))))"

definition EvaluateFlagBool ::
  "VariablyClient \<Rightarrow> world \<Rightarrow> (int \<Rightarrow> EvaluateFlagResponse exchange) \<Rightarrow> fileSystem \<Rightarrow>
   string \<Rightarrow> bool \<Rightarrow> UserContext \<Rightarrow> (string + bool \<times> VariablyClient \<times> fileSystem) option" where
  "EvaluateFlagBool c w net fs flagKey defaultValue userContext =
     (case VariablyClient_EvaluateFlag c w net fs flagKey (VBool defaultValue) userContext of
        None \<Rightarrow> None
      | Some (Inl p) \<Rightarrow> Some (Inl p)
      | Some (Inr (result, c', fs')) \<Rightarrow>
          Some (Inr (if Error result \<noteq> None then defaultValue
                     else (case Value result of VBool v \<Rightarrow> v | _ \<Rightarrow> defaultValue),
                     c', fs')))"





section \<open>Lookups\<close>

text \<open>Whether a lookup of the key at the clock reading \<open>now\<close> finds a live entry.\<close>

definition found :: "MemoryCache \<Rightarrow> string \<Rightarrow> int \<Rightarrow> bool" where
  "found c key now = snd (fst (MemoryCache_Get c key now))"

section \<open>Example configurations\<close>







text \<open>The example evaluator with one cached flag, live until the clock reads 5000.\<close>

definition cachedResult :: FlagResult where
  "cachedResult =
     \<lparr>Key = ''a'', Value = VBool True, Reason = ''api_evaluation'', RuleID = [],
      Variation = [], Error = None, EvaluatedAt = 500, CacheHit = False\<rparr>"





section \<open>Error classification\<close>

lemma handleHTTPError_parsed:
  "handleHTTPError statusCode (Some apiErr) url =
    (if statusCode = 401 then AuthenticationError (Message apiErr) None
     else if statusCode = 400 then ValidationError (Message apiErr) [] None
     else if statusCode = 429 then
       RateLimitError (Message apiErr)
         (if Details apiErr \<noteq> [] then
            (case Atoi (Details apiErr) of Some parsed \<Rightarrow> parsed | None \<Rightarrow> 0)
          else 0) None
     else if statusCode = 408 then TimeoutError (Message apiErr) [] None
     else NetworkError (Message apiErr) statusCode url None)"
  by (simp add: handleHTTPError_def NewNetworkError_def NewAuthenticationError_def
      NewValidationError_def NewRateLimitError_def NewTimeoutError_def)

text \<open>
  Claim C5. For a response with status at least 400 whose body decodes as an error
  object, \<open>handleHTTPError\<close> returns: for 401 an AuthenticationError, not retryable; for
  400 a ValidationError, not retryable; for 429 a RateLimitError, retryable; for 408 a
  TimeoutError, retryable; for every status from 500 on a NetworkError, retryable; for
  every other status below 500 a NetworkError, not retryable. Retryable is what
  \<open>IsRetryable\<close> returns on the error.
\<close>

theorem handleHTTPError_classification:
  "statusCode \<ge> 400 \<Longrightarrow>
   (let e = handleHTTPError statusCode (Some apiErr) url in
     (statusCode = 401 \<longrightarrow>
        e = AuthenticationError (Message apiErr) None \<and> \<not> IsRetryable e) \<and>
     (statusCode = 400 \<longrightarrow>
        (\<exists>field. e = ValidationError (Message apiErr) field None) \<and> \<not> IsRetryable e) \<and>
     (statusCode = 429 \<longrightarrow>
        (\<exists>retryAfter. e = RateLimitError (Message apiErr) retryAfter None) \<and> IsRetryable e) \<and>
     (statusCode = 408 \<longrightarrow>
        (\<exists>duration. e = TimeoutError (Message apiErr) duration None) \<and> IsRetryable e) \<and>
     (statusCode \<ge> 500 \<longrightarrow>
        e = NetworkError (Message apiErr) statusCode url None \<and> IsRetryable e) \<and>
     (statusCode < 500 \<and> statusCode \<notin> {400, 401, 408, 429} \<longrightarrow>
        e = NetworkError (Message apiErr) statusCode url None \<and> \<not> IsRetryable e))"
  by (simp add: handleHTTPError_parsed Let_def)

theorem handleHTTPError_classification_witness:
  "handleHTTPError 401 (Some \<lparr>Code = ''E'', Message = ''m'', Details = []\<rparr>) ''u''
     = AuthenticationError ''m'' None \<and>
   \<not> IsRetryable (handleHTTPError 401 (Some \<lparr>Code = ''E'', Message = ''m'', Details = []\<rparr>) ''u'') \<and>
   \<not> IsRetryable (handleHTTPError 400 (Some \<lparr>Code = ''E'', Message = ''m'', Details = []\<rparr>) ''u'') \<and>
   IsRetryable (handleHTTPError 429 (Some \<lparr>Code = ''E'', Message = ''m'', Details = ''30''\<rparr>) ''u'') \<and>
   IsRetryable (handleHTTPError 408 (Some \<lparr>Code = ''E'', Message = ''m'', Details = []\<rparr>) ''u'') \<and>
   handleHTTPError 502 (Some \<lparr>Code = ''E'', Message = ''m'', Details = []\<rparr>) ''u''
     = NetworkError ''m'' 502 ''u'' None \<and>
   IsRetryable (handleHTTPError 502 (Some \<lparr>Code = ''E'', Message = ''m'', Details = []\<rparr>) ''u'') \<and>
   handleHTTPError 404 (Some \<lparr>Code = ''E'', Message = ''m'', Details = []\<rparr>) ''u''
     = NetworkError ''m'' 404 ''u'' None \<and>
   \<not> IsRetryable (handleHTTPError 404 (Some \<lparr>Code = ''E'', Message = ''m'', Details = []\<rparr>) ''u'')"
  using handleHTTPError_classification [of 401 "\<lparr>Code = ''E'', Message = ''m'', Details = []\<rparr>" "''u''"]
    handleHTTPError_classification [of 400 "\<lparr>Code = ''E'', Message = ''m'', Details = []\<rparr>" "''u''"]
    handleHTTPError_classification [of 429 "\<lparr>Code = ''E'', Message = ''m'', Details = ''30''\<rparr>" "''u''"]
    handleHTTPError_classification [of 408 "\<lparr>Code = ''E'', Message = ''m'', Details = []\<rparr>" "''u''"]
    handleHTTPError_classification [of 502 "\<lparr>Code = ''E'', Message = ''m'', Details = []\<rparr>" "''u''"]
    handleHTTPError_classification [of 404 "\<lparr>Code = ''E'', Message = ''m'', Details = []\<rparr>" "''u''"]
  by (simp add: Let_def)

section \<open>Backoff\<close>

lemma truncToDuration_small: "- 1 < x \<Longrightarrow> x < 1 \<Longrightarrow> truncToDuration x = 0"
  unfolding truncToDuration_def by (auto simp: floor_eq_iff ceiling_eq_iff)

lemma jitter_factor_zero:
  "0 \<le> r \<Longrightarrow> r < 1 \<Longrightarrow> truncToDuration (r * (1 / 2) - 1 / 4) = 0"
  by (rule truncToDuration_small) auto

lemma wrap64_id: "- (2 ^ 63) \<le> x \<Longrightarrow> x < 2 ^ 63 \<Longrightarrow> wrap64 x = x"
  unfolding wrap64_def by (simp add: mod_pos_pos_trivial)

lemma wrap64_range: "- (2 ^ 63) \<le> wrap64 x \<and> wrap64 x < 2 ^ 63"
  unfolding wrap64_def
  using pos_mod_bound [of "2 ^ 64" "x + 2 ^ 63"] pos_mod_sign [of "2 ^ 64" "x + 2 ^ 63"]
  by simp

lemma cappedBackoff_range: "- (2 ^ 63) \<le> cappedBackoff a \<and> cappedBackoff a < 2 ^ 63"
  unfolding cappedBackoff_def Let_def using wrap64_range by auto

text \<open>
  Whatever the draw in [0, 1), the factor \<open>r * 0.5 - 0.25\<close> lies strictly between -1 and
  1 and is converted to a duration before it is multiplied: the jitter is 0.
\<close>

lemma calculateBackoff_no_jitter:
  assumes r: "0 \<le> r" "r < 1"
  shows "calculateBackoff attempt r = cappedBackoff attempt"
proof -
  have z: "wrap64 0 = 0" by (simp add: wrap64_def)
  show ?thesis
    unfolding calculateBackoff_def Let_def jitter_factor_zero [OF r]
    using cappedBackoff_range [of attempt] by (simp add: z wrap64_id)
qed

text \<open>Up to attempt 36 nothing wraps, and the delay is the capped power of two.\<close>

lemma cappedBackoff_formula:
  assumes "0 \<le> attempt" "attempt \<le> 36"
  shows "cappedBackoff attempt = min (100 * Millisecond * 2 ^ nat attempt) (30 * Second)"
proof -
  have "(2::int) ^ nat attempt \<le> 2 ^ 36"
    using assms by (intro power_increasing) auto
  then have "100000000 * (2::int) ^ nat attempt \<le> 100000000 * 2 ^ 36"
    by (rule mult_left_mono) simp
  also have "\<dots> < 2 ^ 63" by simp
  finally have b: "100000000 * (2::int) ^ nat attempt < 2 ^ 63" .
  have "- (2 ^ 63) \<le> (0::int)" by simp
  also have "(0::int) \<le> 100000000 * 2 ^ nat attempt" by simp
  finally have p: "- (2 ^ 63) \<le> 100000000 * (2::int) ^ nat attempt" .
  have w: "wrap64 (100000000 * 2 ^ nat attempt) = 100000000 * 2 ^ nat attempt"
    using p b by (rule wrap64_id)
  have w1: "wrap64 100000000 = 100000000" "wrap64 30000000000 = 30000000000"
    by (simp_all add: wrap64_def)
  show ?thesis
    using assms
    by (auto simp: cappedBackoff_def pow2Duration_def Millisecond_def Second_def w w1
        Let_def min_def)
qed

text \<open>
  Claim C6. The claim: the delay of a retry is \<open>min (100ms * 2^attempt) 30s\<close> perturbed
  by a random factor between -25% and +25%, not identically zero. The code: at attempt 1
  the draws 7/8 and 1/8, which stand for +18.75% and -18.75%, both give exactly 200ms,
  as the draw 0 does; the jitter is zero at every draw.
\<close>

theorem calculateBackoff_jitter_always_zero:
  "calculateBackoff 1 (7 / 8) = 200 * Millisecond \<and>
   calculateBackoff 1 (1 / 8) = 200 * Millisecond \<and>
   calculateBackoff 1 0 = 200 * Millisecond"
  by (simp add: calculateBackoff_no_jitter cappedBackoff_def wrap64_def pow2Duration_def
      Millisecond_def Second_def)

section \<open>Cache keys\<close>

lemma split_at_separator:
  "c \<notin> set a \<Longrightarrow> c \<notin> set a' \<Longrightarrow> a @ c # b = a' @ c # b' \<Longrightarrow> a = a' \<and> b = b'"
proof (induction a arbitrary: a')
  case Nil
  then show ?case by (cases a') auto
next
  case (Cons x a)
  then show ?case by (cases a') auto
qed

lemma generateCacheKey_colon_free:
  assumes "CHR '':'' \<notin> set f" "CHR '':'' \<notin> set f'"
    and "CHR '':'' \<notin> set u" "CHR '':'' \<notin> set u'"
    and "generateCacheKey f u e = generateCacheKey f' u' e'"
  shows "f = f' \<and> u = u' \<and> e = e'"
proof -
  from assms(5)
  have "f @ CHR '':'' # (''user:'' @ u @ '':env:'' @ e) =
        f' @ CHR '':'' # (''user:'' @ u' @ '':env:'' @ e')"
    by (simp add: generateCacheKey_def)
  from split_at_separator [OF assms(1,2) this]
  have 1: "f = f'" and "u @ CHR '':'' # (''env:'' @ e) = u' @ CHR '':'' # (''env:'' @ e')"
    by simp_all
  from split_at_separator [OF assms(3,4) this(2)] 1 show ?thesis by simp
qed

text \<open>
  Claim C8, as stated: two triples that differ in a component have different keys. It
  fails: a flag key or user id that contains the separator text shifts the boundary
  between the components.
\<close>

theorem generateCacheKey_not_injective:
  "(''a:user:b'', ''c'', ''prod'') \<noteq> (''a'', ''b:user:c'', ''prod'') \<and>
   generateCacheKey ''a:user:b'' ''c'' ''prod'' = generateCacheKey ''a'' ''b:user:c'' ''prod''"
  by (simp add: generateCacheKey_def)

text \<open>
  Claim C8, amended. The key is a function of the flag key, the user id and the
  environment; changing exactly one of the three, the other two fixed, changes the key;
  and on triples whose flag key and user id contain no colon the derivation is
  injective.
\<close>

theorem generateCacheKey_separates:
  "(generateCacheKey f u e = generateCacheKey f' u e \<longleftrightarrow> f = f') \<and>
   (generateCacheKey f u e = generateCacheKey f u' e \<longleftrightarrow> u = u') \<and>
   (generateCacheKey f u e = generateCacheKey f u e' \<longleftrightarrow> e = e') \<and>
   (CHR '':'' \<notin> set f \<and> CHR '':'' \<notin> set f' \<and> CHR '':'' \<notin> set u \<and> CHR '':'' \<notin> set u' \<longrightarrow>
      (generateCacheKey f u e = generateCacheKey f' u' e' \<longleftrightarrow> (f, u, e) = (f', u', e')))"
proof -
  have "generateCacheKey f u e = generateCacheKey f' u e \<longleftrightarrow> f = f'"
    and "generateCacheKey f u e = generateCacheKey f u' e \<longleftrightarrow> u = u'"
    and "generateCacheKey f u e = generateCacheKey f u e' \<longleftrightarrow> e = e'"
    by (simp_all add: generateCacheKey_def)
  then show ?thesis
    using generateCacheKey_colon_free [of f f' u u' e e'] by auto
qed

theorem generateCacheKey_separates_witness:
  "CHR '':'' \<notin> set ''f'' \<and> CHR '':'' \<notin> set ''g'' \<and> CHR '':'' \<notin> set ''u1'' \<and>
   CHR '':'' \<notin> set ''u2'' \<and>
   generateCacheKey ''f'' ''u1'' ''prod'' \<noteq> generateCacheKey ''g'' ''u1'' ''prod'' \<and>
   generateCacheKey ''f'' ''u1'' ''prod'' \<noteq> generateCacheKey ''f'' ''u2'' ''prod'' \<and>
   generateCacheKey ''f'' ''u1'' ''prod'' \<noteq> generateCacheKey ''f'' ''u1'' ''dev'' \<and>
   generateCacheKey ''f'' ''u1'' ''prod'' \<noteq> generateCacheKey ''g'' ''u2'' ''dev''"
  using generateCacheKey_separates [of "''f''" "''u1''" "''prod''" "''g''" "''u2''" "''dev''"]
    generateCacheKey_separates [of "''f''" "''u1''" "''prod''" "''g''" "''u1''" "''prod''"]
  by simp


section \<open>The in-memory cache: capacity and eviction\<close>


lemma restrict_map_dom_self: "m |` dom m = m"
  by (rule ext) (auto simp: restrict_map_def domIff)

lemma cacheInv_card: "cacheInv c \<Longrightarrow> card (dom (items c)) = length (lruList c)"
  unfolding cacheInv_def by (metis distinct_card)

lemma evictIfNeeded_truncates:
  "cacheInv c \<Longrightarrow> 0 \<le> maxSize c \<Longrightarrow> evictIfNeeded c = Some (truncated c)"
proof (induction "length (lruList c) - nat (maxSize c)" arbitrary: c)
  case 0
  then have le: "int (length (lruList c)) \<le> maxSize c" by linarith
  have "evictIfNeeded c = Some c"
    using le cacheInv_card [OF "0.prems"(1)] by (subst evictIfNeeded.simps) simp
  moreover have "truncated c = c"
    using le "0.prems"(1) by (simp add: truncated_def cacheInv_def restrict_map_dom_self)
  ultimately show ?case by simp
next
  case (Suc n)
  let ?l = "lruList c"
  let ?m = "nat (maxSize c)"
  from Suc.hyps(2) have gt: "?m < length ?l" by linarith
  then have ne: "?l \<noteq> []" by auto
  let ?c' = "c\<lparr>lruList := butlast ?l, items := (items c)(last ?l := None)\<rparr>"
  have dist: "distinct ?l" and dom: "set ?l = dom (items c)"
    using Suc.prems(1) by (simp_all add: cacheInv_def)
  have split: "?l = butlast ?l @ [last ?l]" using ne by simp
  have notin: "last ?l \<notin> set (butlast ?l)"
    using dist split by (metis distinct_butlast distinct.simps(2) distinct_append
        disjoint_iff_not_equal in_set_conv_decomp list.set_intros(1) not_distinct_conv_prefix)
  have setb: "set (butlast ?l) = set ?l - {last ?l}"
    using notin split by (metis Diff_insert_absorb Un_insert_right append_Nil2 list.simps(15)
        set_append)
  have inv': "cacheInv ?c'"
    using dist dom setb by (auto simp: cacheInv_def distinct_butlast)
  have len': "n = length (lruList ?c') - nat (maxSize ?c')"
    using Suc.hyps(2) by simp
  have step: "evictIfNeeded c = evictIfNeeded ?c'"
    using gt ne cacheInv_card [OF Suc.prems(1)]
    by (subst evictIfNeeded.simps) (auto split: list.splits)
  have ih: "evictIfNeeded ?c' = Some (truncated ?c')"
    using Suc.hyps(1) [OF len' inv'] Suc.prems(2) by simp
  have tk: "take ?m (butlast ?l) = take ?m ?l"
    using gt by (simp add: take_butlast)
  have nt: "last ?l \<notin> set (take ?m ?l)"
    using notin tk by (metis in_set_takeD)
  then have rs: "(items c)(last ?l := None) |` set (take ?m ?l) = items c |` set (take ?m ?l)"
    by (auto simp: restrict_map_def fun_eq_iff)
  have "truncated ?c' = truncated c"
    using nt by (simp add: truncated_def tk)
  with step ih show ?case by simp
qed



lemma cacheInv_truncated:
  assumes "cacheInv c"
  shows "cacheInv (truncated c)"
proof -
  have "set (take (nat (maxSize c)) (lruList c)) \<subseteq> dom (items c)"
    using assms set_take_subset [of "nat (maxSize c)" "lruList c"] by (simp add: cacheInv_def)
  then have "dom (items c |` set (take (nat (maxSize c)) (lruList c))) =
      set (take (nat (maxSize c)) (lruList c))"
    by auto
  then show ?thesis using assms by (simp add: cacheInv_def truncated_def)
qed

lemma Size_truncated: "cacheInv c \<Longrightarrow> 0 \<le> maxSize c \<Longrightarrow> MemoryCache_Size (truncated c) \<le> maxSize c"
  using cacheInv_card [OF cacheInv_truncated, of c]
  by (simp add: MemoryCache_Size_def truncated_def)

lemma MemoryCache_Set_new:
  assumes "cacheInv c" "0 \<le> maxSize c" "items c key = None"
  shows "MemoryCache_Set c key result ttl now =
    Some (truncated (c\<lparr>lruList := key # lruList c,
       items := (items c)(key \<mapsto> \<lparr>item_key = key, item_value = result,
          expiration = now + (if ttl = 0 then defaultTTL c else ttl)\<rparr>)\<rparr>))"
proof -
  let ?c = "c\<lparr>lruList := key # lruList c,
       items := (items c)(key \<mapsto> \<lparr>item_key = key, item_value = result,
          expiration = now + (if ttl = 0 then defaultTTL c else ttl)\<rparr>)\<rparr>"
  have "key \<notin> set (lruList c)" using assms(1,3) by (auto simp: cacheInv_def)
  then have "cacheInv ?c" using assms(1) by (auto simp: cacheInv_def)
  moreover have "0 \<le> maxSize ?c" using assms(2) by simp
  ultimately have "evictIfNeeded ?c = Some (truncated ?c)" by (rule evictIfNeeded_truncates)
  then show ?thesis using assms(3) by (simp add: MemoryCache_Set_def Let_def)
qed

lemma MemoryCache_Set_existing:
  assumes "items c key = Some item"
  shows "MemoryCache_Set c key result ttl now =
    Some (c\<lparr>items := (items c)(key \<mapsto> item\<lparr>item_value := result,
                 expiration := now + (if ttl = 0 then defaultTTL c else ttl)\<rparr>),
            lruList := MoveToFront key (lruList c)\<rparr>)"
  using assms by (simp add: MemoryCache_Set_def Let_def)

lemma MoveToFront_distinct: "distinct l \<Longrightarrow> distinct (MoveToFront k l)"
  by (simp add: MoveToFront_def)

lemma insert_remove1: "k \<in> set l \<Longrightarrow> insert k (set (remove1 k l)) = set l"
  by (induction l) auto

lemma MoveToFront_set: "set (MoveToFront k l) = set l"
  by (simp add: MoveToFront_def insert_remove1)

lemma MoveToFront_length: "length (MoveToFront k l) = length l"
  by (cases "k \<in> set l") (auto simp: MoveToFront_def length_remove1 intro: Suc_pred length_pos_if_in_set)

lemma Size_length: "cacheInv c \<Longrightarrow> MemoryCache_Size c = int (length (lruList c))"
  by (simp add: MemoryCache_Size_def cacheInv_card)

lemma Set_bounded:
  assumes "cacheInv c" "0 \<le> maxSize c" "MemoryCache_Size c \<le> maxSize c"
  shows "\<exists>c'. MemoryCache_Set c key result ttl now = Some c' \<and> cacheInv c' \<and>
     maxSize c' = maxSize c \<and> MemoryCache_Size c' \<le> maxSize c'"
proof (cases "items c key")
  case None
  let ?c = "c\<lparr>lruList := key # lruList c,
       items := (items c)(key \<mapsto> \<lparr>item_key = key, item_value = result,
          expiration = now + (if ttl = 0 then defaultTTL c else ttl)\<rparr>)\<rparr>"
  have "key \<notin> set (lruList c)" using assms(1) None by (auto simp: cacheInv_def)
  then have inv: "cacheInv ?c" using assms(1) by (auto simp: cacheInv_def)
  have "MemoryCache_Size (truncated ?c) \<le> maxSize ?c"
    using inv assms(2) by (intro Size_truncated) simp_all
  then show ?thesis
    using MemoryCache_Set_new [OF assms(1,2) None, of result ttl now] cacheInv_truncated [OF inv]
    by (simp add: truncated_def)
next
  case (Some item)
  let ?c = "c\<lparr>items := (items c)(key \<mapsto> item\<lparr>item_value := result,
                 expiration := now + (if ttl = 0 then defaultTTL c else ttl)\<rparr>),
            lruList := MoveToFront key (lruList c)\<rparr>"
  have k: "key \<in> dom (items c)" using Some by auto
  have inv: "cacheInv ?c"
    using assms(1) k by (auto simp: cacheInv_def MoveToFront_distinct MoveToFront_set)
  have "MemoryCache_Size ?c = MemoryCache_Size c"
    using Size_length [OF inv] Size_length [OF assms(1)] by (simp add: MoveToFront_length)
  then show ?thesis
    using MemoryCache_Set_existing [OF Some, of result ttl now] inv assms(3) by simp
qed


lemma Get_items: "items (snd (MemoryCache_Get c key now)) = items c"
  by (simp add: MemoryCache_Get_def split: option.splits)

lemma Get_maxSize: "maxSize (snd (MemoryCache_Get c key now)) = maxSize c"
  by (simp add: MemoryCache_Get_def split: option.splits)

lemma Get_lruList:
  "lruList (snd (MemoryCache_Get c key now)) =
     (if snd (fst (MemoryCache_Get c key now)) then MoveToFront key (lruList c) else lruList c)"
  by (simp add: MemoryCache_Get_def split: option.splits)

lemma Get_cacheInv: "cacheInv c \<Longrightarrow> cacheInv (snd (MemoryCache_Get c key now))"
  by (simp add: cacheInv_def Get_items Get_lruList MoveToFront_distinct MoveToFront_set)

lemma Get_bounded: "bounded c \<Longrightarrow> bounded (snd (MemoryCache_Get c key now))"
  by (simp add: bounded_def Get_cacheInv Get_maxSize MemoryCache_Size_def Get_items)

lemma Delete_cacheInv: "cacheInv c \<Longrightarrow> cacheInv (MemoryCache_Delete c key)"
  by (auto simp: cacheInv_def MemoryCache_Delete_def split: option.splits)

lemma Delete_bounded:
  assumes "bounded c"
  shows "bounded (MemoryCache_Delete c key)"
proof -
  have inv: "cacheInv c" and inv': "cacheInv (MemoryCache_Delete c key)"
    using assms Delete_cacheInv by (auto simp: bounded_def)
  have "length (lruList (MemoryCache_Delete c key)) \<le> length (lruList c)"
    by (simp add: MemoryCache_Delete_def length_remove1 split: option.splits)
  moreover have "maxSize (MemoryCache_Delete c key) = maxSize c"
    by (simp add: MemoryCache_Delete_def split: option.splits)
  ultimately show ?thesis
    using assms inv' by (simp add: bounded_def Size_length [OF inv] Size_length [OF inv'])
qed

lemma Clear_bounded: "0 \<le> maxSize c \<Longrightarrow> bounded (MemoryCache_Clear c)"
  by (simp add: bounded_def cacheInv_def MemoryCache_Clear_def MemoryCache_Size_def)

lemma New_bounded: "0 \<le> n \<Longrightarrow> bounded (NewMemoryCache n ttl)"
  by (simp add: bounded_def cacheInv_def NewMemoryCache_def MemoryCache_Size_def)

lemma Set_preserves_bounded:
  assumes "bounded c"
  shows "\<exists>c'. MemoryCache_Set c key result ttl now = Some c' \<and> bounded c' \<and>
     maxSize c' = maxSize c"
  using Set_bounded [of c key result ttl now] assms by (auto simp: bounded_def)

lemma applyOp_bounded:
  assumes "bounded c"
  shows "\<exists>c'. applyOp c op = Some c' \<and> bounded c' \<and> maxSize c' = maxSize c"
proof (cases op)
  case (OpSet key result ttl now)
  then show ?thesis using Set_preserves_bounded [OF assms] by simp
next
  case (OpGet key now)
  then show ?thesis using Get_bounded [OF assms] by (simp add: Get_maxSize)
next
  case (OpDelete key)
  then show ?thesis using Delete_bounded [OF assms]
    by (simp add: MemoryCache_Delete_def split: option.splits)
next
  case OpClear
  then show ?thesis using Clear_bounded [of c] assms
    by (simp add: bounded_def MemoryCache_Clear_def)
qed

lemma runOps_bounded:
  "bounded c \<Longrightarrow> \<exists>c'. runOps c ops = Some c' \<and> bounded c' \<and> maxSize c' = maxSize c"
proof (induction ops arbitrary: c)
  case Nil
  then show ?case by simp
next
  case (Cons op ops)
  from applyOp_bounded [OF Cons.prems, of op]
  obtain c1 where 1: "applyOp c op = Some c1" "bounded c1" "maxSize c1 = maxSize c" by blast
  from Cons.IH [OF 1(2)] 1 show ?case by auto
qed

subsection \<open>The recency list is in the order of last use\<close>

lemma sorted_wrt_remove1: "sorted_wrt P l \<Longrightarrow> sorted_wrt P (remove1 k l)"
  by (induction l) (auto dest: notin_set_remove1)

lemma byLastUse_touch:
  assumes "byLastUse f t c" "distinct (lruList c)" "k \<in> set (lruList c)"
  shows "byLastUse (f(k := Suc t)) (Suc t) (c\<lparr>lruList := MoveToFront k (lruList c)\<rparr>)"
proof -
  let ?l = "lruList c"
  have s: "sorted_wrt (\<lambda>a b. f a > f b) ?l" and b: "\<forall>x \<in> set ?l. f x \<le> t"
    using assms(1) by (simp_all add: byLastUse_def list_all_iff)
  have nk: "k \<notin> set (remove1 k ?l)" using assms(2) by simp
  have sub: "set (remove1 k ?l) \<subseteq> set ?l" by (rule set_remove1_subset)
  have "sorted_wrt (\<lambda>a b. f a > f b) (remove1 k ?l)"
    using s by (rule sorted_wrt_remove1)
  then have "sorted_wrt (\<lambda>a b. (f(k := Suc t)) a > (f(k := Suc t)) b) (remove1 k ?l)"
    using nk by (elim sorted_wrt_mono_rel [rotated]) auto
  moreover have "\<forall>x \<in> set (remove1 k ?l). (f(k := Suc t)) x < Suc t"
    using nk sub b by (auto simp: less_Suc_eq_le)
  ultimately show ?thesis
    using assms(3) by (auto simp: byLastUse_def MoveToFront_def list_all_iff less_imp_le)
qed

lemma byLastUse_later: "byLastUse f t c \<Longrightarrow> byLastUse f (Suc t) c"
  by (auto simp: byLastUse_def list_all_iff)

lemma byLastUse_new:
  assumes "byLastUse f t c" "k \<notin> set (lruList c)"
  shows "byLastUse (f(k := Suc t)) (Suc t) (truncated (c\<lparr>lruList := k # lruList c, items := m\<rparr>))"
proof -
  let ?l = "lruList c"
  let ?g = "f(k := Suc t)"
  have s: "sorted_wrt (\<lambda>a b. f a > f b) ?l" and b: "\<forall>x \<in> set ?l. f x \<le> t"
    using assms(1) by (simp_all add: byLastUse_def list_all_iff)
  have "sorted_wrt (\<lambda>a b. ?g a > ?g b) ?l"
    using s assms(2) by (elim sorted_wrt_mono_rel [rotated]) auto
  moreover have "\<forall>x \<in> set ?l. ?g x < Suc t"
    using assms(2) b by (auto simp: less_Suc_eq_le)
  ultimately have full: "sorted_wrt (\<lambda>a b. ?g a > ?g b) (k # ?l)"
    and bd: "\<forall>x \<in> set (k # ?l). ?g x \<le> Suc t"
    by (auto simp: less_imp_le)
  have "sorted_wrt (\<lambda>a b. ?g a > ?g b) (take (nat (maxSize c)) (k # ?l))"
    using full by (rule sorted_wrt_take)
  moreover have "\<forall>x \<in> set (take (nat (maxSize c)) (k # ?l)). ?g x \<le> Suc t"
    using bd by (meson in_set_takeD)
  ultimately show ?thesis
    by (simp add: byLastUse_def truncated_def list_all_iff)
qed

lemma byLastUse_Delete: "byLastUse f t c \<Longrightarrow> byLastUse f t (MemoryCache_Delete c key)"
  by (auto simp: byLastUse_def MemoryCache_Delete_def list_all_iff sorted_wrt_remove1
      dest: notin_set_remove1 split: option.splits)

lemma byLastUse_Clear: "byLastUse f t (MemoryCache_Clear c)"
  by (simp add: byLastUse_def MemoryCache_Clear_def)

lemma applyOp_byLastUse:
  assumes "cacheInv c" "0 \<le> maxSize c" "byLastUse f t c" "applyOp c op = Some c'"
  shows "byLastUse (case uses c op of None \<Rightarrow> f | Some k \<Rightarrow> f(k := Suc t)) (Suc t) c'"
proof (cases op)
  case (OpSet key result ttl now)
  show ?thesis
  proof (cases "items c key")
    case None
    then have "key \<notin> set (lruList c)" using assms(1) by (auto simp: cacheInv_def)
    from byLastUse_new [OF assms(3) this]
    show ?thesis
      using assms(4) OpSet MemoryCache_Set_new [OF assms(1,2) None, of result ttl now] by auto
  next
    case (Some item)
    then have k: "key \<in> set (lruList c)" using assms(1) by (auto simp: cacheInv_def)
    have d: "distinct (lruList c)" using assms(1) by (simp add: cacheInv_def)
    have L: "lruList c' = MoveToFront key (lruList c)"
      using assms(4) OpSet MemoryCache_Set_existing [OF Some, of result ttl now] by auto
    have "byLastUse (f(key := Suc t)) (Suc t) c'"
      using byLastUse_touch [OF assms(3) d k] by (simp add: byLastUse_def L)
    then show ?thesis using OpSet by simp
  qed
next
  case (OpGet key now)
  show ?thesis
  proof (cases "snd (fst (MemoryCache_Get c key now))")
    case True
    then have "key \<in> dom (items c)"
      by (auto simp: MemoryCache_Get_def split: option.splits if_splits)
    then have k: "key \<in> set (lruList c)" using assms(1) by (simp add: cacheInv_def)
    have d: "distinct (lruList c)" using assms(1) by (simp add: cacheInv_def)
    have "c' = c\<lparr>lruList := MoveToFront key (lruList c)\<rparr>"
      using assms(4) OpGet True
      by (auto simp: MemoryCache_Get_def split: option.splits if_splits)
    with byLastUse_touch [OF assms(3) d k] show ?thesis using OpGet True by simp
  next
    case False
    then have "c' = c"
      using assms(4) OpGet by (auto simp: MemoryCache_Get_def split: option.splits if_splits)
    with byLastUse_later [OF assms(3)] show ?thesis using OpGet False by simp
  qed
next
  case (OpDelete key)
  then show ?thesis
    using assms(4) byLastUse_Delete [OF byLastUse_later [OF assms(3)], of key] by auto
next
  case OpClear
  then show ?thesis using assms(4) byLastUse_Clear [of _ _ c] by auto
qed

lemma runOps_byLastUse:
  "bounded c \<Longrightarrow> byLastUse f t c \<Longrightarrow> runOps c ops = Some c' \<Longrightarrow>
   byLastUse (lastUse c ops t f) (t + length ops) c'"
proof (induction ops arbitrary: c f t)
  case Nil
  then show ?case by simp
next
  case (Cons op ops)
  from applyOp_bounded [OF Cons.prems(1), of op]
  obtain c1 where 1: "applyOp c op = Some c1" "bounded c1" by blast
  have inv: "cacheInv c" "0 \<le> maxSize c" using Cons.prems(1) by (simp_all add: bounded_def)
  from applyOp_byLastUse [OF inv Cons.prems(2) 1(1)]
  have 2: "byLastUse (case uses c op of None \<Rightarrow> f | Some k \<Rightarrow> f(k := Suc t)) (Suc t) c1" .
  have 3: "runOps c1 ops = Some c'" using Cons.prems(3) 1(1) by simp
  from Cons.IH [OF 1(2) 2 3] show ?case using 1(1) by simp
qed

lemma take_append_take: "take n (a @ take n b) = take n (a @ b)"
  by (simp add: min_def)

lemma runOps_inserts:
  "bounded c0 \<Longrightarrow> distinct ks \<Longrightarrow> set ks \<inter> set (lruList c0) = {} \<Longrightarrow>
   \<exists>c. runOps c0 (map (\<lambda>k. OpSet k (r k) (d k) (t k)) ks) = Some c \<and>
       lruList c = take (nat (maxSize c0)) (rev ks @ lruList c0)"
proof (induction ks arbitrary: c0)
  case Nil
  then have "int (length (lruList c0)) \<le> maxSize c0"
    using Size_length [of c0] by (simp add: bounded_def)
  then show ?case by simp
next
  case (Cons k ks)
  have inv: "cacheInv c0" "0 \<le> maxSize c0" using Cons.prems(1) by (simp_all add: bounded_def)
  have "k \<notin> set (lruList c0)" using Cons.prems(3) by simp
  then have none: "items c0 k = None" using inv(1) by (auto simp: cacheInv_def)
  from Set_preserves_bounded [OF Cons.prems(1), of k "r k" "d k" "t k"]
  obtain c1 where 1: "MemoryCache_Set c0 k (r k) (d k) (t k) = Some c1" "bounded c1"
    "maxSize c1 = maxSize c0" by blast
  have l1: "lruList c1 = take (nat (maxSize c0)) (k # lruList c0)"
    using 1(1) MemoryCache_Set_new [OF inv none, of "r k" "d k" "t k"]
    by (auto simp: truncated_def)
  have "set (lruList c1) \<subseteq> insert k (set (lruList c0))"
    unfolding l1 using set_take_subset [of "nat (maxSize c0)" "k # lruList c0"] by simp
  then have dj: "set ks \<inter> set (lruList c1) = {}"
    using Cons.prems(2,3) by auto
  from Cons.IH [OF 1(2) _ dj] Cons.prems(2)
  obtain c where c: "runOps c1 (map (\<lambda>k. OpSet k (r k) (d k) (t k)) ks) = Some c"
    "lruList c = take (nat (maxSize c1)) (rev ks @ lruList c1)" by auto
  have "lruList c = take (nat (maxSize c0)) (rev (k # ks) @ lruList c0)"
    unfolding c(2) 1(3) l1 by (simp add: take_append_take)
  then show ?case using c(1) 1(1) by simp
qed


subsection \<open>A negative capacity\<close>

text \<open>
  When \<open>evictIfNeeded\<close> returns, the capacity is not negative: below zero the size of the
  map always exceeds it, and once the list is empty nothing changes any more. So with a
  negative capacity a \<open>Set\<close> of a new key does not return.
\<close>

lemma evictIfNeeded_returns_capacity:
  assumes "evictIfNeeded c = Some c'"
  shows "0 \<le> maxSize c"
proof (rule evictIfNeeded.raw_induct [where P = "\<lambda>x y. 0 \<le> maxSize x" and c = c and y = c'])
  fix evict x y
  assume ih: "\<And>a b. evict a = Some b \<Longrightarrow> 0 \<le> maxSize a"
    and body: "(if maxSize x < int (card (dom (items x)))
      then case lruList x of [] \<Rightarrow> evict x
           | _ # _ \<Rightarrow>
               evict (x\<lparr>lruList := butlast (lruList x),
                        items := (items x)(last (lruList x) := None)\<rparr>)
      else Some x) = Some y"
  show "0 \<le> maxSize x"
  proof (cases "maxSize x < int (card (dom (items x)))")
    case False
    then show ?thesis by linarith
  next
    case True
    show ?thesis
    proof (cases "lruList x")
      case Nil
      with body True have "evict x = Some y" by simp
      then show ?thesis by (rule ih)
    next
      case (Cons k ks)
      with body True have
        "evict (x\<lparr>lruList := butlast (lruList x),
                  items := (items x)(last (lruList x) := None)\<rparr>) = Some y"
        by simp
      from ih [OF this] show ?thesis by simp
    qed
  qed
next
  show "evictIfNeeded c = Some c'" by (rule assms)
qed

lemma MemoryCache_Set_negative_capacity:
  "maxSize c < 0 \<Longrightarrow> items c key = None \<Longrightarrow> MemoryCache_Set c key result ttl now = None"
proof (rule ccontr)
  assume neg: "maxSize c < 0" and none: "items c key = None"
    and "MemoryCache_Set c key result ttl now \<noteq> None"
  then obtain c' where "MemoryCache_Set c key result ttl now = Some c'" by auto
  with none have "evictIfNeeded
       (c\<lparr>lruList := key # lruList c,
          items := (items c)(key \<mapsto>
            \<lparr>item_key = key, item_value = result,
             expiration = now + (if ttl = 0 then defaultTTL c else ttl)\<rparr>)\<rparr>) = Some c'"
    by (simp add: MemoryCache_Set_def Let_def)
  from evictIfNeeded_returns_capacity [OF this] neg show False by simp
qed

lemma runOps_defaultTTL:
  "runOps c ops = Some c' \<Longrightarrow> bounded c \<Longrightarrow> defaultTTL c' = defaultTTL c"
proof (induction ops arbitrary: c)
  case Nil
  then show ?case by simp
next
  case (Cons op ops)
  from applyOp_bounded [OF Cons.prems(2), of op]
  obtain c1 where 1: "applyOp c op = Some c1" "bounded c1" by blast
  have inv: "cacheInv c" "0 \<le> maxSize c" using Cons.prems(2) by (simp_all add: bounded_def)
  have "defaultTTL c1 = defaultTTL c"
  proof (cases op)
    case (OpSet key result ttl now)
    then show ?thesis
      using 1(1) MemoryCache_Set_new [OF inv, of key result ttl now]
        MemoryCache_Set_existing [of c key _ result ttl now]
      by (cases "items c key") (auto simp: truncated_def)
  next
    case (OpGet key now)
    then show ?thesis using 1(1)
      by (auto simp: MemoryCache_Get_def split: option.splits)
  next
    case (OpDelete key)
    then show ?thesis using 1(1)
      by (auto simp: MemoryCache_Delete_def split: option.splits)
  next
    case OpClear
    then show ?thesis using 1(1) by (auto simp: MemoryCache_Clear_def)
  qed
  moreover have "runOps c1 ops = Some c'" using Cons.prems(1) 1(1) by simp
  ultimately show ?case using Cons.IH [OF _ 1(2)] by simp
qed

text \<open>
  Claim C1. A cache is made with a capacity that is not negative and any sequence of Set,
  Get, Delete and Clear operations is run on it. Every operation returns, and after the
  sequence (so after each operation, a prefix being a sequence) the size is at most the
  capacity. The recency list holds exactly the keys of the map, in the order of their
  last use, the most recent first. A Set of a key that is not in the cache puts the key
  at the front of the recency list and keeps the first \<open>capacity\<close> keys of the list: the
  entries removed are those at the back, the least recently used, as many as it takes.
  When distinct keys are only inserted, never read, the keys that remain are the last
  \<open>capacity\<close> inserted: the oldest inserted goes first.
\<close>

theorem MemoryCache_capacity_and_lru_eviction:
  assumes "0 \<le> capacity"
  shows "(\<exists>c. runOps (NewMemoryCache capacity ttl) ops = Some c \<and>
            MemoryCache_Size c \<le> capacity \<and>
            distinct (lruList c) \<and> set (lruList c) = dom (items c) \<and>
            sorted_wrt (\<lambda>a b. lastUse (NewMemoryCache capacity ttl) ops 0 (\<lambda>k. 0) a >
                              lastUse (NewMemoryCache capacity ttl) ops 0 (\<lambda>k. 0) b) (lruList c) \<and>
            (\<forall>key result ttl' now. items c key = None \<longrightarrow>
               (\<exists>c'. MemoryCache_Set c key result ttl' now = Some c' \<and>
                  lruList c' = take (nat capacity) (key # lruList c) \<and>
                  items c' =
                    (items c)(key \<mapsto> \<lparr>item_key = key, item_value = result,
                       expiration = now + (if ttl' = 0 then ttl else ttl')\<rparr>)
                    |` set (take (nat capacity) (key # lruList c)) \<and>
                  MemoryCache_Size c' \<le> capacity))) \<and>
         (distinct ks \<longrightarrow>
            (\<exists>c. runOps (NewMemoryCache capacity ttl)
                    (map (\<lambda>k. OpSet k (r k) (d k) (t k)) ks) = Some c \<and>
                 lruList c = take (nat capacity) (rev ks)))"
proof -
  let ?c0 = "NewMemoryCache capacity ttl"
  have b0: "bounded ?c0" using assms by (rule New_bounded)
  have m0: "maxSize ?c0 = capacity" and l0: "lruList ?c0 = []" and t0: "defaultTTL ?c0 = ttl"
    by (simp_all add: NewMemoryCache_def)
  from runOps_bounded [OF b0, of ops]
  obtain c where c: "runOps ?c0 ops = Some c" "bounded c" "maxSize c = capacity"
    using m0 by auto
  have inv: "cacheInv c" "0 \<le> maxSize c" using c(2) by (simp_all add: bounded_def)
  have ttl: "defaultTTL c = ttl" using runOps_defaultTTL [OF c(1) b0] t0 by simp
  have size: "MemoryCache_Size c \<le> capacity" using c(2,3) by (simp add: bounded_def)
  have "byLastUse (\<lambda>k. 0) 0 ?c0" by (simp add: byLastUse_def l0)
  from runOps_byLastUse [OF b0 this c(1)]
  have order: "sorted_wrt (\<lambda>a b. lastUse ?c0 ops 0 (\<lambda>k. 0) a > lastUse ?c0 ops 0 (\<lambda>k. 0) b)
      (lruList c)"
    by (simp add: byLastUse_def)
  have set_new: "\<exists>c'. MemoryCache_Set c key result ttl' now = Some c' \<and>
        lruList c' = take (nat capacity) (key # lruList c) \<and>
        items c' =
          (items c)(key \<mapsto> \<lparr>item_key = key, item_value = result,
             expiration = now + (if ttl' = 0 then ttl else ttl')\<rparr>)
          |` set (take (nat capacity) (key # lruList c)) \<and>
        MemoryCache_Size c' \<le> capacity"
    if none: "items c key = None" for key result ttl' now
  proof -
    from Set_preserves_bounded [OF c(2), of key result ttl' now]
    obtain c' where c': "MemoryCache_Set c key result ttl' now = Some c'" "bounded c'"
      "maxSize c' = maxSize c" by blast
    have "c' = truncated (c\<lparr>lruList := key # lruList c,
       items := (items c)(key \<mapsto> \<lparr>item_key = key, item_value = result,
          expiration = now + (if ttl' = 0 then defaultTTL c else ttl')\<rparr>)\<rparr>)"
      using c'(1) MemoryCache_Set_new [OF inv none, of result ttl' now] by simp
    then have "lruList c' = take (nat capacity) (key # lruList c)"
      and "items c' =
          (items c)(key \<mapsto> \<lparr>item_key = key, item_value = result,
             expiration = now + (if ttl' = 0 then ttl else ttl')\<rparr>)
          |` set (take (nat capacity) (key # lruList c))"
      using c(3) ttl by (simp_all add: truncated_def)
    moreover have "MemoryCache_Size c' \<le> capacity"
      using c'(2,3) c(3) by (simp add: bounded_def)
    ultimately show ?thesis using c'(1) by blast
  qed
  have first: "\<exists>c. runOps ?c0 ops = Some c \<and>
            MemoryCache_Size c \<le> capacity \<and>
            distinct (lruList c) \<and> set (lruList c) = dom (items c) \<and>
            sorted_wrt (\<lambda>a b. lastUse ?c0 ops 0 (\<lambda>k. 0) a > lastUse ?c0 ops 0 (\<lambda>k. 0) b)
              (lruList c) \<and>
            (\<forall>key result ttl' now. items c key = None \<longrightarrow>
               (\<exists>c'. MemoryCache_Set c key result ttl' now = Some c' \<and>
                  lruList c' = take (nat capacity) (key # lruList c) \<and>
                  items c' =
                    (items c)(key \<mapsto> \<lparr>item_key = key, item_value = result,
                       expiration = now + (if ttl' = 0 then ttl else ttl')\<rparr>)
                    |` set (take (nat capacity) (key # lruList c)) \<and>
                  MemoryCache_Size c' \<le> capacity))"
    using c(1) size inv(1) order set_new unfolding cacheInv_def by blast
  have second: "\<exists>c. runOps ?c0 (map (\<lambda>k. OpSet k (r k) (d k) (t k)) ks) = Some c \<and>
                 lruList c = take (nat capacity) (rev ks)"
    if "distinct ks"
    using runOps_inserts [OF b0 that, of r d t] by (simp add: m0 l0)
  from first second show ?thesis by blast
qed

theorem MemoryCache_capacity_and_lru_eviction_witness:
  "(0::int) \<le> 2 \<and> distinct [''a'', ''b'', ''c''] \<and>
   (\<exists>c. runOps (NewMemoryCache 2 60)
          [OpSet ''a'' zeroFlagResult 0 0, OpSet ''b'' zeroFlagResult 0 1, OpGet ''a'' 2,
           OpSet ''c'' zeroFlagResult 0 3] = Some c \<and>
        MemoryCache_Size c \<le> 2 \<and> set (lruList c) = dom (items c)) \<and>
   (\<exists>c. runOps (NewMemoryCache 2 60)
          (map (\<lambda>k. OpSet k zeroFlagResult 0 0) [''a'', ''b'', ''c'']) = Some c \<and>
        lruList c = [''c'', ''b''])"
proof -
  have h: "(0::int) \<le> 2" by simp
  have d: "distinct [''a'', ''b'', ''c'']" by simp
  from MemoryCache_capacity_and_lru_eviction [OF h, of 60
      "[OpSet ''a'' zeroFlagResult 0 0, OpSet ''b'' zeroFlagResult 0 1, OpGet ''a'' 2,
           OpSet ''c'' zeroFlagResult 0 3]" "[''a'', ''b'', ''c'']"
      "\<lambda>k. zeroFlagResult" "\<lambda>k. 0" "\<lambda>k. 0"]
  have 1: "\<exists>c. runOps (NewMemoryCache 2 60)
          [OpSet ''a'' zeroFlagResult 0 0, OpSet ''b'' zeroFlagResult 0 1, OpGet ''a'' 2,
           OpSet ''c'' zeroFlagResult 0 3] = Some c \<and>
        MemoryCache_Size c \<le> 2 \<and> set (lruList c) = dom (items c)"
    and 2: "\<exists>c. runOps (NewMemoryCache 2 60)
          (map (\<lambda>k. OpSet k zeroFlagResult 0 0) [''a'', ''b'', ''c'']) = Some c \<and>
        lruList c = take (nat 2) (rev [''a'', ''b'', ''c''])"
    using d by blast+
  from 2 have "\<exists>c. runOps (NewMemoryCache 2 60)
          (map (\<lambda>k. OpSet k zeroFlagResult 0 0) [''a'', ''b'', ''c'']) = Some c \<and>
        lruList c = [''c'', ''b'']"
    by (simp add: numeral_2_eq_2)
  with h d 1 show ?thesis by blast
qed

text \<open>
  Two inserts, a read of \<open>a\<close> and a third insert into a cache of capacity 2, run step by
  step: \<open>b\<close>, the least recently used, is the one evicted.
\<close>

lemma MemoryCache_eviction_example:
  "\<exists>c. runOps (NewMemoryCache 2 60)
          [OpSet ''a'' zeroFlagResult 0 0, OpSet ''b'' zeroFlagResult 0 1, OpGet ''a'' 2,
           OpSet ''c'' zeroFlagResult 0 3] = Some c \<and>
       lruList c = [''c'', ''a''] \<and> items c ''b'' = None \<and> MemoryCache_Size c = 2"
  by (simp add: NewMemoryCache_def MemoryCache_Set_new MemoryCache_Set_existing cacheInv_def
      truncated_def MemoryCache_Get_def MoveToFront_def MemoryCache_Size_def insert_commute)

subsection \<open>Expiry on read\<close>

text \<open>
  Claim C2. In every cache state, whether or not a sweep has run, \<open>Get\<close> at a clock
  reading after the expiry instant of the entry under the key reports not-found and
  returns the empty result; and whenever \<open>Get\<close> reports found, the value is that of an
  entry whose expiry instant is not before the clock reading.
\<close>

theorem MemoryCache_Get_never_returns_expired:
  "(items c key = Some item \<and> now > expiration item \<longrightarrow>
      fst (MemoryCache_Get c key now) = (zeroFlagResult, False)) \<and>
   (snd (fst (MemoryCache_Get c key now)) \<longrightarrow>
      (\<exists>item. items c key = Some item \<and> now \<le> expiration item \<and>
         fst (fst (MemoryCache_Get c key now)) = item_value item))"
  by (auto simp: MemoryCache_Get_def split: option.splits)

theorem MemoryCache_Get_never_returns_expired_witness:
  "(\<exists>c item. items c ''k'' = Some item \<and> (101::int) > expiration item \<and>
      fst (MemoryCache_Get c ''k'' 101) = (zeroFlagResult, False)) \<and>
   (\<exists>c. snd (fst (MemoryCache_Get c ''k'' 100)) \<and>
      fst (fst (MemoryCache_Get c ''k'' 100)) = zeroFlagResult\<lparr>Key := ''f''\<rparr>)"
proof -
  let ?item = "\<lparr>item_key = ''k'', item_value = zeroFlagResult\<lparr>Key := ''f''\<rparr>, expiration = 100\<rparr>"
  let ?c = "\<lparr>maxSize = 2, items = [''k'' \<mapsto> ?item], lruList = [''k''], defaultTTL = 60\<rparr>"
  have i: "items ?c ''k'' = Some ?item" and e: "(101::int) > expiration ?item" by simp_all
  have f: "snd (fst (MemoryCache_Get ?c ''k'' 100))" by (simp add: MemoryCache_Get_def)
  from MemoryCache_Get_never_returns_expired [of ?c "''k''" ?item 101] i e
  have 1: "fst (MemoryCache_Get ?c ''k'' 101) = (zeroFlagResult, False)" by blast
  from MemoryCache_Get_never_returns_expired [of ?c "''k''" ?item 100] f
  have 2: "fst (fst (MemoryCache_Get ?c ''k'' 100)) = zeroFlagResult\<lparr>Key := ''f''\<rparr>"
    by auto
  from i e 1 f 2 show ?thesis by blast
qed


section \<open>Retries\<close>

lemma RecordAPICall_apiCalls: "apiCalls (RecordAPICall m success) = apiCalls m + 1"
  by (simp add: RecordAPICall_def Let_def)

lemma makeRequestFrom_all_retryable:
  assumes "0 \<le> a" "a \<le> retryAttempts c"
    and "\<forall>k. 1 \<le> k \<and> k \<le> retryAttempts c \<longrightarrow> ctx k = None"
    and "\<forall>k. 0 \<le> k \<and> k \<le> retryAttempts c \<longrightarrow>
           (\<exists>err. doRequest c path wantResult (net k) = Inl err \<and> IsRetryable err)"
  shows "\<exists>err m'. doRequest c path wantResult (net (retryAttempts c)) = Inl err \<and>
           makeRequestFrom c path wantResult ctx net a lastErr m = (Some err, None, m') \<and>
           apiCalls m' = apiCalls m + (retryAttempts c - a + 1)"
  using assms(1,2)
proof (induction "nat (retryAttempts c - a)" arbitrary: a lastErr m)
  case 0
  then have a: "a = retryAttempts c" by simp
  from assms(4) a "0.prems"(1) obtain err where
    err: "doRequest c path wantResult (net a) = Inl err" "IsRetryable err" by blast
  have ctx: "(if a > 0 then ctx a else None) = None"
    using assms(3) a by auto
  have "makeRequestFrom c path wantResult ctx net (a + 1) (Some err) (RecordAPICall m False)
      = (Some err, None, RecordAPICall m False)"
    using a by (subst makeRequestFrom.simps) simp
  then have "makeRequestFrom c path wantResult ctx net a lastErr m
      = (Some err, None, RecordAPICall m False)"
    using a err ctx by (subst makeRequestFrom.simps) simp
  then show ?case using err(1) a by (simp add: RecordAPICall_apiCalls)
next
  case (Suc n)
  then have lt: "a < retryAttempts c" by linarith
  from assms(4) lt Suc.prems(1) obtain err where
    err: "doRequest c path wantResult (net a) = Inl err" "IsRetryable err"
    by (metis less_imp_le)
  have ctx: "(if a > 0 then ctx a else None) = None"
    using assms(3) lt by auto
  have step: "makeRequestFrom c path wantResult ctx net a lastErr m =
      makeRequestFrom c path wantResult ctx net (a + 1) (Some err) (RecordAPICall m False)"
    using lt err ctx by (subst makeRequestFrom.simps) simp
  have n: "n = nat (retryAttempts c - (a + 1))" using Suc.hyps(2) by linarith
  from Suc.hyps(1) [OF n, of "Some err" "RecordAPICall m False"] lt Suc.prems(1)
  obtain err' m' where
    "doRequest c path wantResult (net (retryAttempts c)) = Inl err'"
    "makeRequestFrom c path wantResult ctx net (a + 1) (Some err) (RecordAPICall m False)
       = (Some err', None, m')"
    "apiCalls m' = apiCalls (RecordAPICall m False) + (retryAttempts c - (a + 1) + 1)"
    by auto
  then show ?case using step by (auto simp: RecordAPICall_apiCalls)
qed

lemma doRequest_502:
  "\<exists>msg. doRequest c path wantResult (Responds 502 body) =
     Inl (NetworkError msg 502 (baseURL c @ path) None)"
  by (cases "asAPIError body")
     (simp_all add: doRequest_def handleHTTPError_def NewNetworkError_def)

text \<open>
  Claim C4. The number of attempts is the number of calls recorded in the metrics, one
  per call of \<open>doRequest\<close>. When the context is not done during any backoff wait and
  every attempt fails with a retryable error, \<open>makeRequest\<close> with \<open>retryAttempts = n\<close>,
  \<open>n\<close> not negative, makes exactly \<open>n + 1\<close> attempts and returns the error of the last
  one. When every attempt is answered with status 502 and \<open>retryAttempts = 3\<close>, it
  makes exactly 4 attempts and returns a NetworkError with status 502.
\<close>

theorem makeRequest_retry_count:
  assumes "\<forall>k. 1 \<le> k \<and> k \<le> retryAttempts c \<longrightarrow> ctx k = None"
  shows "(0 \<le> retryAttempts c \<and>
          (\<forall>k. 0 \<le> k \<and> k \<le> retryAttempts c \<longrightarrow>
             (\<exists>err. doRequest c path wantResult (net k) = Inl err \<and> IsRetryable err)) \<longrightarrow>
          (\<exists>err m'. doRequest c path wantResult (net (retryAttempts c)) = Inl err \<and>
             makeRequest c path wantResult ctx net m = (Some err, None, m') \<and>
             apiCalls m' = apiCalls m + (retryAttempts c + 1))) \<and>
         (retryAttempts c = 3 \<and> (\<forall>k. \<exists>body. net k = Responds 502 body) \<longrightarrow>
          (\<exists>msg m'. makeRequest c path wantResult ctx net m =
               (Some (NetworkError msg 502 (baseURL c @ path) None), None, m') \<and>
             apiCalls m' = apiCalls m + 4))"
proof -
  have general: "\<exists>err m'. doRequest c path wantResult (net (retryAttempts c)) = Inl err \<and>
             makeRequest c path wantResult ctx net m = (Some err, None, m') \<and>
             apiCalls m' = apiCalls m + (retryAttempts c + 1)"
    if "0 \<le> retryAttempts c"
      and "\<forall>k. 0 \<le> k \<and> k \<le> retryAttempts c \<longrightarrow>
             (\<exists>err. doRequest c path wantResult (net k) = Inl err \<and> IsRetryable err)"
    using makeRequestFrom_all_retryable [where a = 0 and lastErr = None and m = m,
        OF _ that(1) assms that(2)]
    by (simp add: makeRequest_def)
  have special: "\<exists>msg m'. makeRequest c path wantResult ctx net m =
               (Some (NetworkError msg 502 (baseURL c @ path) None), None, m') \<and>
             apiCalls m' = apiCalls m + 4"
    if n: "retryAttempts c = 3" and all: "\<forall>k. \<exists>body. net k = Responds 502 body"
  proof -
    have fails: "\<exists>err. doRequest c path wantResult (net k) = Inl err \<and> IsRetryable err" for k
    proof -
      from all obtain body where "net k = Responds 502 body" by blast
      with doRequest_502 [of c path wantResult body] show ?thesis by auto
    qed
    from all obtain body where "net (retryAttempts c) = Responds 502 body" by blast
    with doRequest_502 [of c path wantResult body] obtain msg where
      last: "doRequest c path wantResult (net (retryAttempts c)) =
        Inl (NetworkError msg 502 (baseURL c @ path) None)" by auto
    from general fails n obtain err m' where
      "doRequest c path wantResult (net (retryAttempts c)) = Inl err"
      "makeRequest c path wantResult ctx net m = (Some err, None, m')"
      "apiCalls m' = apiCalls m + (retryAttempts c + 1)" by auto
    with last n show ?thesis by auto
  qed
  from general special show ?thesis by blast
qed

lemma showInt_502: "showInt 502 = ''502''"
  by code_simp

theorem makeRequest_retry_count_witness:
  "(0::int) \<le> 3 \<and>
   IsRetryable (NetworkError ''HTTP 502'' 502 ''http://h/p'' None) \<and>
   (\<exists>m'. makeRequest \<lparr>baseURL = ''http://h'', apiKey = ''k'', retryAttempts = 3\<rparr> ''/p'' True
        (\<lambda>k. None)
        (\<lambda>k. Responds 502
           \<lparr>asAPIError = None, asAPIResponse = None, asResult = (None :: EvaluateFlagResponse option)\<rparr>)
        \<lparr>apiCalls = 0, cacheHits = 0, cacheMisses = 0, errorCount = 0, flagsEvaluated = 0,
         gatesEvaluated = 0, eventsTracked = 0\<rparr>
      = (Some (NetworkError ''HTTP 502'' 502 ''http://h/p'' None), None, m') \<and> apiCalls m' = 4)"
proof -
  let ?c = "\<lparr>baseURL = ''http://h'', apiKey = ''k'', retryAttempts = 3\<rparr>"
  let ?net = "\<lambda>k::int. Responds 502
       \<lparr>asAPIError = None, asAPIResponse = None, asResult = (None :: EvaluateFlagResponse option)\<rparr>"
  let ?m = "\<lparr>apiCalls = 0, cacheHits = 0, cacheMisses = 0, errorCount = 0, flagsEvaluated = 0,
         gatesEvaluated = 0, eventsTracked = 0\<rparr>"
  have 1: "\<forall>k. 1 \<le> k \<and> k \<le> retryAttempts ?c \<longrightarrow> (\<lambda>k. None :: error option) k = None"
    by simp
  have d: "doRequest ?c ''/p'' True (?net k) =
      Inl (NetworkError ''HTTP 502'' 502 ''http://h/p'' None)" for k
    by (simp add: doRequest_def handleHTTPError_def NewNetworkError_def showInt_502)
  have 2: "\<forall>k. 0 \<le> k \<and> k \<le> retryAttempts ?c \<longrightarrow>
      (\<exists>err. doRequest ?c ''/p'' True (?net k) = Inl err \<and> IsRetryable err)"
    by (simp add: d)
  from makeRequest_retry_count [OF 1, of "''/p''" True ?net ?m] 2
  have "\<exists>err m'. doRequest ?c ''/p'' True (?net (retryAttempts ?c)) = Inl err \<and>
        makeRequest ?c ''/p'' True (\<lambda>k. None) ?net ?m = (Some err, None, m') \<and>
        apiCalls m' = apiCalls ?m + (retryAttempts ?c + 1)"
    by simp
  then show ?thesis by (simp add: d)
qed


section \<open>The evaluator\<close>

subsection \<open>The cache manager over either cache\<close>






lemma CacheManager_Get_cacheConfig:
  "cacheConfig (snd (CacheManager_Get cm key now)) = cacheConfig cm"
  by (cases "cache cm")
     (auto simp: CacheManager_Get_def PersistentCache_Get_def split: prod.splits)



subsection \<open>What a lookup finds, before and after other operations\<close>

lemma found_iff:
  "found c key now \<longleftrightarrow> (\<exists>item. items c key = Some item \<and> now \<le> expiration item)"
  by (auto simp: found_def MemoryCache_Get_def split: option.splits)


lemma found_Get: "found (snd (MemoryCache_Get c key' t)) key now = found c key now"
  by (simp add: found_iff Get_items)



subsection \<open>The outcome of a request does not depend on the counters\<close>








subsection \<open>A single flag\<close>




subsection \<open>The two loops of a batch evaluation\<close>












subsection \<open>Failures are not cached\<close>


subsection \<open>Independence of the keys of a batch\<close>



subsection \<open>The value of a flag fetched from the API\<close>




subsection \<open>The evaluator run on the example configuration\<close>













section \<open>Persistence\<close>











end
